theory Spec2Isabelle
  imports Complex_Main
begin

section \<open>JSON values and the transport\<close>

text \<open>
  The values that \<^verbatim>\<open>response.json()\<close> can produce. A parsed object has each key once,
  so the association list of \<open>JObject\<close> is read with \<open>map_of\<close>.
\<close>

datatype json =
    JNull
  | JBool bool
  | JNumber rat
  | JString string
  | JArray "json list"
  | JObject "(string \<times> json) list"

text \<open>JavaScript truthiness, restricted to the values JSON can denote.\<close>

fun truthy :: "json \<Rightarrow> bool" where
  "truthy JNull = False"
| "truthy (JBool b) = b"
| "truthy (JNumber n) = (n \<noteq> 0)"
| "truthy (JString s) = (s \<noteq> [])"
| "truthy (JArray xs) = True"
| "truthy (JObject kvs) = True"

text \<open>
  Property access \<^verbatim>\<open>v.detail\<close>: on \<^verbatim>\<open>null\<close> it throws a TypeError (\<open>None\<close>); on
  every other value it yields the property or \<^verbatim>\<open>undefined\<close>. Only an object parsed
  from JSON can own a property called \<^verbatim>\<open>detail\<close>.
\<close>

datatype jsval = Undefined | Val json

fun get_detail :: "json \<Rightarrow> jsval option" where
  "get_detail JNull = None"
| "get_detail (JObject kvs) =
     (case map_of kvs ''detail'' of None \<Rightarrow> Some Undefined | Some v \<Rightarrow> Some (Val v))"
| "get_detail v = Some Undefined"

text \<open>
  \<^verbatim>\<open>ToString\<close> on the values JSON can denote: a string is itself, an object is
  \<^verbatim>\<open>[object Object]\<close>, an array is its elements joined by commas, a \<^verbatim>\<open>null\<close> element
  contributing nothing. How the host prints a number is not modelled: the result is
  \<open>None\<close> for a number and for an array that holds one.
\<close>

fun toString :: "json \<Rightarrow> string option" and join :: "json list \<Rightarrow> string option" where
  "toString JNull = Some ''null''"
| "toString (JBool b) = Some (if b then ''true'' else ''false'')"
| "toString (JNumber n) = None"
| "toString (JString s) = Some s"
| "toString (JArray xs) = join xs"
| "toString (JObject kvs) = Some ''[object Object]''"
| "join [] = Some []"
| "join [x] = (if x = JNull then Some [] else toString x)"
| "join (x # y # ys) =
     (case (if x = JNull then Some [] else toString x) of
        None \<Rightarrow> None
      | Some a \<Rightarrow> (case join (y # ys) of None \<Rightarrow> None | Some b \<Rightarrow> Some (a @ '','' @ b)))"

text \<open>
  \<^verbatim>\<open>new Error(x).message\<close> is \<^verbatim>\<open>ToString(x)\<close>: the text \<open>Text s\<close> when the conversion is
  modelled, and otherwise the conversion of \<open>x\<close> by name, \<open>ToStringOf x\<close>.
\<close>

datatype message = Text string | ToStringOf json

definition error_message :: "json \<Rightarrow> message" where
  "error_message v = (case toString v of Some s \<Rightarrow> Text s | None \<Rightarrow> ToStringOf v)"

text \<open>
  Whether \<^verbatim>\<open>ToString(v)\<close> is the empty string. An array is joined with commas, a
  \<^verbatim>\<open>null\<close> element contributing nothing; numbers, booleans, objects and a \<^verbatim>\<open>null\<close>
  that is not an array element all convert to non-empty strings.
\<close>

fun blank :: "json \<Rightarrow> bool" where
  "blank (JString s) = (s = [])"
| "blank (JArray []) = True"
| "blank (JArray [x]) = (x = JNull \<or> blank x)"
| "blank (JArray (x # y # zs)) = False"
| "blank v = False"

fun truthy_message :: "message \<Rightarrow> bool" where
  "truthy_message (Text s) = (s \<noteq> [])"
| "truthy_message (ToStringOf v) = (\<not> blank v)"

record request =
  url :: string
  http_method :: string
  headers :: "(string \<times> string) list"
  body :: "(string \<times> json) list"

text \<open>
  A transport response: the status code, the status text, and what \<^verbatim>\<open>response.json()\<close>
  settles with (\<open>Inl\<close> the message of the parse error, \<open>Inr\<close> the parsed value).
  \<^verbatim>\<open>response.ok\<close> is the Fetch standard's test for a 2xx status.
\<close>

record response =
  status :: nat
  statusText :: string
  json_body :: "string + json"

definition ok :: "response \<Rightarrow> bool" where
  "ok r = (200 \<le> status r \<and> status r \<le> 299)"

text \<open>\<^verbatim>\<open>fetch\<close> either rejects (network failure) or resolves with a response.\<close>

datatype outcome = NetworkError string | Response response

section \<open>The API client (api.js)\<close>

text \<open>
  \<^verbatim>\<open>analyzeProject(projectPath = ".", analysisPrompt = null)\<close>: an argument that is
  \<open>None\<close> is absent, and takes its default.
\<close>

definition buildRequest :: "string \<Rightarrow> string option \<Rightarrow> string option \<Rightarrow> request" where
  "buildRequest baseUrl projectPath analysisPrompt =
     (let projectPath = (case projectPath of None \<Rightarrow> ''.'' | Some p \<Rightarrow> p);
          requestBody = [(''project_path'', JString projectPath)];
          requestBody = (case analysisPrompt of
                           None \<Rightarrow> requestBody
                         | Some a \<Rightarrow> if a \<noteq> [] then requestBody @ [(''analysis_prompt'', JString a)]
                                     else requestBody)
      in \<lparr> url = baseUrl @ ''/api/analyze-project'',
           http_method = ''POST'',
           headers = [(''Content-Type'', ''application/json'')],
           body = requestBody \<rparr>)"

definition handleResponse :: "response \<Rightarrow> message + json" where
  "handleResponse r =
     (if \<not> ok r then
        (let errorMessage = Text ''Failed to analyze project'';
             errorMessage =
               (case json_body r of
                  Inl e \<Rightarrow> Text (''Failed to analyze project: '' @ statusText r)
                | Inr errorData \<Rightarrow>
                    (case get_detail errorData of
                       None \<Rightarrow> Text (''Failed to analyze project: '' @ statusText r)
                     | Some d \<Rightarrow>
                         (case d of
                            Undefined \<Rightarrow> errorMessage
                          | Val v \<Rightarrow> if truthy v then error_message v else errorMessage)))
         in Inl errorMessage)
      else (case json_body r of Inl e \<Rightarrow> Inl (Text e) | Inr v \<Rightarrow> Inr v))"

text \<open>
  The whole call: the request is built and handed to \<^verbatim>\<open>fetch\<close>, here a function from
  the request to what the network does with it; a rejection of \<^verbatim>\<open>fetch\<close> itself
  propagates with its own message.
\<close>

definition analyzeProject ::
  "string \<Rightarrow> (request \<Rightarrow> outcome) \<Rightarrow> string option \<Rightarrow> string option \<Rightarrow> message + json" where
  "analyzeProject baseUrl fetch projectPath analysisPrompt =
     (case fetch (buildRequest baseUrl projectPath analysisPrompt) of
        NetworkError e \<Rightarrow> Inl (Text e)
      | Response r \<Rightarrow> handleResponse r)"

text \<open>
  The base URL of the shared client instance: the source takes it from the build
  configuration and falls back to this address.
\<close>

definition API_BASE :: string where
  "API_BASE = ''http://localhost:8001''"

section \<open>JavaScript numbers\<close>

text \<open>
  A finite double is a rational number, and an arithmetic operation of the source returns
  the exact result rounded to the nearest double, a tie going to the even significand
  (\<open>fl\<close>): 53 significant bits, the exponent not below \<open>-1022\<close>. Overflow to
  \<^verbatim>\<open>Infinity\<close> is outside the model; the numbers of the simulator stay below 200.
  Comparisons and \<^verbatim>\<open>Math.min\<close> are exact. \<open>bitlen n\<close> is the number of binary digits of
  \<open>n\<close>, and \<open>exponent x\<close>, for positive \<open>x\<close>, the \<open>e\<close> with \<open>2^e \<le> x < 2^(e+1)\<close>.
\<close>

fun bitlen :: "nat \<Rightarrow> nat" where
  "bitlen n = (if n = 0 then 0 else Suc (bitlen (n div 2)))"

declare bitlen.simps [simp del]

definition exponent :: "rat \<Rightarrow> int" where
  "exponent x = (if 1 \<le> x then int (bitlen (nat \<lfloor>x\<rfloor>)) - 1
                 else - int (bitlen (nat \<lceil>1 / x\<rceil> - 1)))"

definition pow2 :: "int \<Rightarrow> rat" where
  "pow2 e = (if 0 \<le> e then 2 ^ nat e else 1 / 2 ^ nat (- e))"

definition round_even :: "rat \<Rightarrow> int" where
  "round_even x =
     (let f = \<lfloor>x\<rfloor>; d = x - of_int f
      in if d < 1 / 2 then f else if 1 / 2 < d then f + 1 else if even f then f else f + 1)"

definition fl :: "rat \<Rightarrow> rat" where
  "fl x =
     (if x = 0 then 0
      else (let a = \<bar>x\<bar>;
                q = pow2 (max (exponent a) (- 1022) - 52)
            in sgn x * of_int (round_even (a / q)) * q))"

section \<open>The progress simulator (AnalysisProgress.jsx)\<close>

text \<open>
  The effect of \<^verbatim>\<open>AnalysisProgress\<close> runs on the host's timers. The host is modelled by
  a clock, a counter for fresh timer handles and the list of live timers; a timer carries
  its callback as data: \<open>ProgressTick inc\<close> is the interval callback of one
  \<^verbatim>\<open>startStage\<close> call (it captured \<^verbatim>\<open>progressIncrement\<close>), \<open>StageEnd i\<close> the timeout
  callback (it captured \<^verbatim>\<open>stageIndex\<close>). Percentages are doubles.
\<close>

record stage =
  stage_id :: nat
  stage_name :: string
  description :: string
  duration :: nat

definition stages :: "stage list" where
  "stages =
     [ \<lparr> stage_id = 1, stage_name = ''Stage 1: Collecting'',
         description = ''Reading project files and structure...'', duration = 12000 \<rparr>,
       \<lparr> stage_id = 2, stage_name = ''Stage 2: Ranking'',
         description = ''Analyzing and prioritizing files...'', duration = 12000 \<rparr>,
       \<lparr> stage_id = 3, stage_name = ''Stage 3: Generating'',
         description = ''Creating comprehensive report...'', duration = 12000 \<rparr> ]"

datatype callback = ProgressTick rat | StageEnd nat

record timer =
  tid :: nat
  due :: nat
  period :: "nat option"
  cb :: callback

record sim =
  now :: nat
  nextId :: nat
  timers :: "timer list"
  stageTimer :: "nat option"
  progressTimer :: "nat option"
  progressValue :: rat
  currentStage :: nat
  progress :: rat
  onTickCalls :: nat

text \<open>The two state setters are the component's \<^verbatim>\<open>onTick\<close>: each call is counted.\<close>

definition setCurrentStage :: "nat \<Rightarrow> sim \<Rightarrow> sim" where
  "setCurrentStage i s = s\<lparr> currentStage := i, onTickCalls := onTickCalls s + 1 \<rparr>"

definition setProgress :: "rat \<Rightarrow> sim \<Rightarrow> sim" where
  "setProgress p s = s\<lparr> progress := p, onTickCalls := onTickCalls s + 1 \<rparr>"

definition setInterval :: "callback \<Rightarrow> nat \<Rightarrow> sim \<Rightarrow> sim \<times> nat" where
  "setInterval f ms s =
     (s\<lparr> timers := timers s @ [\<lparr> tid = nextId s, due = now s + ms, period = Some ms, cb = f \<rparr>],
         nextId := nextId s + 1 \<rparr>, nextId s)"

definition setTimeout :: "callback \<Rightarrow> nat \<Rightarrow> sim \<Rightarrow> sim \<times> nat" where
  "setTimeout f ms s =
     (s\<lparr> timers := timers s @ [\<lparr> tid = nextId s, due = now s + ms, period = None, cb = f \<rparr>],
         nextId := nextId s + 1 \<rparr>, nextId s)"

text \<open>
  \<^verbatim>\<open>clearTimeout\<close> and \<^verbatim>\<open>clearInterval\<close> share one pool of handles; clearing
  \<^verbatim>\<open>undefined\<close> or a handle that is no longer live does nothing.
\<close>

definition clearTimer :: "nat option \<Rightarrow> sim \<Rightarrow> sim" where
  "clearTimer h s =
     (case h of None \<Rightarrow> s
      | Some i \<Rightarrow> s\<lparr> timers := filter (\<lambda>t. tid t \<noteq> i) (timers s) \<rparr>)"

function startStage :: "nat \<Rightarrow> sim \<Rightarrow> sim" where
  "startStage stageIndex s =
     (if stageIndex \<ge> length stages then
        startStage 0 (setProgress 0 (setCurrentStage 0 s))
      else
        (let s = setCurrentStage stageIndex s;
             s = s\<lparr> progressValue := 0 \<rparr>;
             s = setProgress 0 s;
             stageDuration = duration (stages ! stageIndex);
             progressIncrement = fl (100 / fl (of_nat stageDuration / 100));
             (s, h) = setInterval (ProgressTick progressIncrement) 100 s;
             s = s\<lparr> progressTimer := Some h \<rparr>;
             (s, h) = setTimeout (StageEnd stageIndex) stageDuration s;
             s = s\<lparr> stageTimer := Some h \<rparr>
         in s))"
  by pat_completeness auto
termination
  by (relation "measure (\<lambda>(i, s). if i \<ge> length stages then 1 else 0)")
     (auto simp: stages_def)

declare startStage.simps [simp del]

fun run_cb :: "callback \<Rightarrow> sim \<Rightarrow> sim" where
  "run_cb (ProgressTick progressIncrement) s =
     (let s = s\<lparr> progressValue := fl (progressValue s + progressIncrement) \<rparr>;
          s = (if progressValue s \<ge> 100
               then clearTimer (progressTimer s) (s\<lparr> progressValue := 100 \<rparr>)
               else s)
      in setProgress (min (progressValue s) 100) s)"
| "run_cb (StageEnd stageIndex) s =
     startStage (stageIndex + 1) (clearTimer (progressTimer s) s)"

text \<open>
  The host fires a live timer: the clock moves to its due time, a timeout is spent, an
  interval is rearmed one period later, and the callback runs. Firing a handle that is not
  live does nothing.
\<close>

definition rearm :: "timer \<Rightarrow> timer list \<Rightarrow> timer list" where
  "rearm t ts =
     (case period t of
        None \<Rightarrow> filter (\<lambda>u. tid u \<noteq> tid t) ts
      | Some p \<Rightarrow> map (\<lambda>u. if tid u = tid t then u\<lparr> due := due t + p \<rparr> else u) ts)"

definition fire :: "nat \<Rightarrow> sim \<Rightarrow> sim" where
  "fire i s =
     (case find (\<lambda>t. tid t = i) (timers s) of
        None \<Rightarrow> s
      | Some t \<Rightarrow> run_cb (cb t) (s\<lparr> now := max (now s) (due t), timers := rearm t (timers s) \<rparr>))"

text \<open>The effect body (mount) and the cleanup it returns (unmount).\<close>

definition effect :: "sim \<Rightarrow> sim" where
  "effect s =
     startStage 0 (s\<lparr> stageTimer := None, progressTimer := None, progressValue := 0 \<rparr>)"

definition cleanup :: "sim \<Rightarrow> sim" where
  "cleanup s = clearTimer (progressTimer s) (clearTimer (stageTimer s) s)"

definition host0 :: sim where
  "host0 = \<lparr> now = 0, nextId = 1, timers = [], stageTimer = None, progressTimer = None,
             progressValue = 0, currentStage = 0, progress = 0, onTickCalls = 0 \<rparr>"

text \<open>Any sequence of timer firings, in any order: every schedule the host could choose.\<close>

fun fires :: "nat list \<Rightarrow> sim \<Rightarrow> sim" where
  "fires [] s = s"
| "fires (i # is) s = fires is (fire i s)"

text \<open>
  The host's own schedule: the live timer that is due first fires next. Two timers due at
  the same instant fire in an order the host chooses; \<open>timeoutFirst\<close> is that choice.
\<close>

definition before :: "bool \<Rightarrow> timer \<Rightarrow> timer \<Rightarrow> bool" where
  "before timeoutFirst u t =
     (due u < due t \<or>
      (due u = due t \<and> (if timeoutFirst then period u = None \<and> period t \<noteq> None
                                        else period u \<noteq> None \<and> period t = None)))"

fun earliest :: "bool \<Rightarrow> timer list \<Rightarrow> timer option" where
  "earliest timeoutFirst [] = None"
| "earliest timeoutFirst (t # ts) =
     (case earliest timeoutFirst ts of
        None \<Rightarrow> Some t
      | Some u \<Rightarrow> if before timeoutFirst u t then Some u else Some t)"

definition step :: "bool \<Rightarrow> sim \<Rightarrow> sim" where
  "step timeoutFirst s =
     (case earliest timeoutFirst (timers s) of None \<Rightarrow> s | Some t \<Rightarrow> fire (tid t) s)"

fun run :: "bool \<Rightarrow> nat \<Rightarrow> sim \<Rightarrow> sim" where
  "run timeoutFirst 0 s = s"
| "run timeoutFirst (Suc n) s = run timeoutFirst n (step timeoutFirst s)"

text \<open>
  Reference points of a run on the host's own schedule. \<open>increment\<close> is the
  \<^verbatim>\<open>progressIncrement\<close> of a 12000 ms stage and \<open>percent_after j\<close> the value of
  \<^verbatim>\<open>progressValue\<close> after \<open>j\<close> additions of it. \<open>stage_at t k i j c\<close> is the simulator
  \<open>j\<close> ticks into stage \<open>i\<close>, when that stage began at time \<open>t\<close> with \<open>k\<close> the next free
  handle and \<open>c\<close> setter calls made. A stage takes 119 ticks and the timeout when the
  timeout wins the tie at its end, and 120 ticks and the timeout otherwise.
\<close>

definition increment :: rat where
  "increment = fl (100 / fl (12000 / 100))"

fun percent_after :: "nat \<Rightarrow> rat" where
  "percent_after 0 = 0"
| "percent_after (Suc j) = fl (percent_after j + increment)"

definition events_per_stage :: "bool \<Rightarrow> nat" where
  "events_per_stage timeoutFirst = (if timeoutFirst then 120 else 121)"

definition stage_at :: "nat \<Rightarrow> nat \<Rightarrow> nat \<Rightarrow> nat \<Rightarrow> nat \<Rightarrow> sim" where
  "stage_at t k i j c =
     \<lparr> now = t + 100 * j, nextId = k + 2,
       timers = [\<lparr> tid = k, due = t + 100 * (j + 1), period = Some 100, cb = ProgressTick increment \<rparr>,
                 \<lparr> tid = k + 1, due = t + 12000, period = None, cb = StageEnd i \<rparr>],
       stageTimer = Some (k + 1), progressTimer = Some k,
       progressValue = percent_after j, currentStage = i, progress = percent_after j,
       onTickCalls = c + j \<rparr>"

text \<open>
  \<open>walk n x\<close> makes \<open>n\<close> additions from \<open>x\<close> and returns the value reached, provided every
  addition raised the value and kept it below 100.
\<close>

fun walk :: "nat \<Rightarrow> rat \<Rightarrow> rat option" and rise :: "rat \<Rightarrow> rat \<Rightarrow> nat \<Rightarrow> rat option" where
  "walk 0 x = Some x"
| "walk (Suc n) x = rise x (fl (x + increment)) n"
| "rise x y n = (if x < y \<and> y < 100 then walk n y else None)"

text \<open>
  The ownership invariant of the effect: every live timer is the one whose handle the
  closure currently holds, the interval in \<^verbatim>\<open>progressTimer\<close> and the timeout in
  \<^verbatim>\<open>stageTimer\<close>.
\<close>

definition owned :: "sim \<Rightarrow> bool" where
  "owned s = (\<forall>t \<in> set (timers s).
      (case cb t of
         ProgressTick inc \<Rightarrow> progressTimer s = Some (tid t)
       | StageEnd i \<Rightarrow> stageTimer s = Some (tid t) \<and> period t = None))"

text \<open>
  While the component is mounted the stage timeout is live, and its handle differs from
  the interval's, so the interval's own \<^verbatim>\<open>clearInterval\<close> cannot remove it.
\<close>

definition alive :: "sim \<Rightarrow> bool" where
  "alive s = (owned s \<and> progressTimer s \<noteq> stageTimer s \<and>
              (\<exists>t \<in> set (timers s). case cb t of ProgressTick inc \<Rightarrow> False | StageEnd i \<Rightarrow> True))"

section \<open>The application (App.jsx, AnalysisSidebar.jsx)\<close>

text \<open>
  The state of \<^verbatim>\<open>App\<close>: the five \<^verbatim>\<open>useState\<close> cells. \<^verbatim>\<open>null\<close> is \<open>JNull\<close> for the
  result and \<open>None\<close> for the error.
\<close>

record app =
  isAnalyzing :: bool
  analysisResult :: json
  analysisError :: "message option"
  projectPath :: string
  analysisPrompt :: string

definition SAMPLE_PROMPT :: string where
  "SAMPLE_PROMPT = ''Analyze the codebase focusing strictly on security vulnerabilities (improper handling of API keys, injection risks) and provide a prioritized list of refactoring suggestions.''"

text \<open>
  What surrounds the component: the host with its timers, whether an
  \<^verbatim>\<open>AnalysisProgress\<close> instance is mounted, the requests handed to \<^verbatim>\<open>fetch\<close> so far and
  those whose promise has not settled yet.
\<close>

record world =
  ui :: app
  host :: sim
  mounted :: bool
  sent :: "request list"
  pending :: "request list"

definition world0 :: world where
  "world0 = \<lparr> ui = \<lparr> isAnalyzing = False, analysisResult = JNull, analysisError = None,
                         projectPath = ''.'', analysisPrompt = [] \<rparr>,
                host = host0, mounted = False, sent = [], pending = [] \<rparr>"

text \<open>\<^verbatim>\<open>analysisPrompt || null\<close>\<close>

definition orNull :: "string \<Rightarrow> string option" where
  "orNull a = (if a \<noteq> [] then Some a else None)"

text \<open>
  State updates made during one run of a handler are committed together, so the page is
  observed only between events (React's batching).
\<close>

text \<open>
  \<^verbatim>\<open>handleAnalyzeClick\<close> runs in two parts: up to the \<^verbatim>\<open>await\<close> (the three setters and
  the call of \<^verbatim>\<open>api.analyzeProject\<close>, which hands its request to \<^verbatim>\<open>fetch\<close>), and from the
  settlement of the promise on (the \<^verbatim>\<open>try\<close> body or the \<^verbatim>\<open>catch\<close>, then \<^verbatim>\<open>finally\<close>).
\<close>

definition handleAnalyzeClick :: "world \<Rightarrow> world" where
  "handleAnalyzeClick w =
     (let a = (ui w)\<lparr> isAnalyzing := True \<rparr>;
          a = a\<lparr> analysisError := None \<rparr>;
          a = a\<lparr> analysisResult := JNull \<rparr>;
          r = buildRequest API_BASE (Some (projectPath (ui w))) (orNull (analysisPrompt (ui w)))
      in w\<lparr> ui := a, sent := sent w @ [r], pending := pending w @ [r] \<rparr>)"

definition settled :: "message + json \<Rightarrow> world \<Rightarrow> world" where
  "settled out w =
     (let a = (case out of
                 Inr result \<Rightarrow> (ui w)\<lparr> analysisResult := result \<rparr>
               | Inl m \<Rightarrow> (ui w)\<lparr> analysisError := Some m \<rparr>);
          a = a\<lparr> isAnalyzing := False \<rparr>
      in w\<lparr> ui := a \<rparr>)"

text \<open>
  Rendering can throw. A property read (\<^verbatim>\<open>v.k\<close>, or \<^verbatim>\<open>v?.k\<close> where \<open>v\<close> may be
  \<^verbatim>\<open>null\<close>) finds a value only in an object that has the key; none of the keys the
  page reads is a property of a string, a number or an array. React accepts strings,
  numbers, booleans, \<^verbatim>\<open>null\<close>, \<^verbatim>\<open>undefined\<close> and arrays of such values as children,
  and throws on a plain object; an error thrown while rendering, with no error boundary
  in the tree, makes React remove the whole page.
\<close>

fun field :: "string \<Rightarrow> json \<Rightarrow> jsval" where
  "field k (JObject kvs) = (case map_of kvs k of None \<Rightarrow> Undefined | Some v \<Rightarrow> Val v)"
| "field k v = Undefined"

fun validChild :: "json \<Rightarrow> bool" where
  "validChild (JObject kvs) = False"
| "validChild (JArray xs) = list_all validChild xs"
| "validChild v = True"

fun child_ok :: "jsval \<Rightarrow> bool" where
  "child_ok Undefined = True"
| "child_ok (Val v) = validChild v"

text \<open>\<^verbatim>\<open>analysisResult?.metadata?.file_analysis || null\<close>, also \<^verbatim>\<open>metadata?.file_analysis || null\<close>\<close>

definition fileMetadata :: "json \<Rightarrow> json" where
  "fileMetadata r =
     (case field ''metadata'' r of
        Undefined \<Rightarrow> JNull
      | Val m \<Rightarrow> (case field ''file_analysis'' m of
                    Undefined \<Rightarrow> JNull
                  | Val f \<Rightarrow> if truthy f then f else JNull))"

text \<open>
  \<^verbatim>\<open>AnalysisSidebar\<close> shows \<^verbatim>\<open>files_read\<close> and \<^verbatim>\<open>total_size_mb\<close> of a truthy
  \<^verbatim>\<open>fileMetadata\<close>. It shows \<^verbatim>\<open>files_skipped\<close> only when \<^verbatim>\<open>files_skipped > 0\<close>, which
  no value that React rejects satisfies (its conversion to a number is \<^verbatim>\<open>NaN\<close>), so that
  child cannot throw.
\<close>

definition sidebarThrows :: "json \<Rightarrow> bool" where
  "sidebarThrows fm =
     (truthy fm \<and> (\<not> child_ok (field ''files_read'' fm) \<or> \<not> child_ok (field ''total_size_mb'' fm)))"

text \<open>
  \<^verbatim>\<open>AnalysisResults\<close>, in the version with the report header, shows
  \<^verbatim>\<open>metadata?.source_path\<close> when it is truthy, and through \<^verbatim>\<open>FileMetadata\<close> the three
  fields of a truthy \<^verbatim>\<open>fileMetadata\<close>; the first tab shows \<^verbatim>\<open>stage1\<close> through
  \<^verbatim>\<open>JSON.stringify\<close>, which is a string.
\<close>

definition resultsThrow :: "json \<Rightarrow> bool" where
  "resultsThrow r =
     ((case field ''metadata'' r of
         Undefined \<Rightarrow> False
       | Val m \<Rightarrow> (case field ''source_path'' m of
                     Undefined \<Rightarrow> False
                   | Val p \<Rightarrow> truthy p \<and> \<not> validChild p))
      \<or> (truthy (fileMetadata r) \<and>
           (\<not> child_ok (field ''files_read'' (fileMetadata r)) \<or>
            \<not> child_ok (field ''total_size_mb'' (fileMetadata r)) \<or>
            \<not> child_ok (field ''files_skipped'' (fileMetadata r)))))"

definition truthy_error :: "message option \<Rightarrow> bool" where
  "truthy_error e = (case e of None \<Rightarrow> False | Some m \<Rightarrow> truthy_message m)"

definition pageThrows :: "app \<Rightarrow> bool" where
  "pageThrows a =
     (sidebarThrows (fileMetadata (analysisResult a)) \<or>
      (\<not> isAnalyzing a \<and> \<not> truthy_error (analysisError a) \<and> truthy (analysisResult a) \<and>
       resultsThrow (analysisResult a)))"

text \<open>
  The four conditional blocks of the returned markup, in the order of the source. A block
  is on the screen when its condition holds and the page rendered.
\<close>

definition showsProgress :: "app \<Rightarrow> bool" where
  "showsProgress a = (\<not> pageThrows a \<and> isAnalyzing a)"

definition showsError :: "app \<Rightarrow> bool" where
  "showsError a = (\<not> pageThrows a \<and> \<not> isAnalyzing a \<and> truthy_error (analysisError a))"

definition showsResults :: "app \<Rightarrow> bool" where
  "showsResults a =
     (\<not> pageThrows a \<and> \<not> isAnalyzing a \<and> \<not> truthy_error (analysisError a) \<and>
      truthy (analysisResult a))"

definition showsWelcome :: "app \<Rightarrow> bool" where
  "showsWelcome a =
     (\<not> pageThrows a \<and> \<not> isAnalyzing a \<and> \<not> truthy_error (analysisError a) \<and>
      \<not> truthy (analysisResult a))"

text \<open>
  The session state is not a variable of the program; it is read off the block that is
  shown: the progress animation (running), the error with its retry button (failed), the
  results (succeeded), the welcome text (idle). A page that React removed shows none
  of them (crashed).
\<close>

datatype session = Idle | Running | Succeeded json | Failed message | Crashed

definition sessionState :: "app \<Rightarrow> session" where
  "sessionState a =
     (if showsProgress a then Running
      else if showsError a then Failed (the (analysisError a))
      else if showsResults a then Succeeded (analysisResult a)
      else if showsWelcome a then Idle
      else Crashed)"

text \<open>
  What can happen to the page. The sidebar button is \<^verbatim>\<open>disabled={isLoading}\<close>, and a
  disabled button dispatches no click; the retry button exists only inside the error
  block. \<open>Settle out\<close> settles the oldest pending promise with \<open>out\<close>; \<open>Timer i\<close> is the
  host firing the timer with handle \<open>i\<close>. A removed page has no button and no input, and
  React ignores state updates of its components.
\<close>

datatype event =
    ClickAnalyze
  | ClickRetry
  | ChangePath string
  | ChangePrompt string
  | UseSamplePrompt
  | Settle "message + json"
  | Timer nat

fun dispatch :: "event \<Rightarrow> world \<Rightarrow> world" where
  "dispatch ClickAnalyze w =
     (if pageThrows (ui w) \<or> isAnalyzing (ui w) then w else handleAnalyzeClick w)"
| "dispatch ClickRetry w = (if showsError (ui w) then handleAnalyzeClick w else w)"
| "dispatch (ChangePath p) w =
     (if pageThrows (ui w) then w else w\<lparr> ui := (ui w)\<lparr> projectPath := p \<rparr> \<rparr>)"
| "dispatch (ChangePrompt a) w =
     (if pageThrows (ui w) then w else w\<lparr> ui := (ui w)\<lparr> analysisPrompt := a \<rparr> \<rparr>)"
| "dispatch UseSamplePrompt w =
     (if pageThrows (ui w) then w else w\<lparr> ui := (ui w)\<lparr> analysisPrompt := SAMPLE_PROMPT \<rparr> \<rparr>)"
| "dispatch (Settle out) w =
     (case pending w of
        [] \<Rightarrow> w
      | r # rs \<Rightarrow> if pageThrows (ui w) then w\<lparr> pending := rs \<rparr>
                  else settled out (w\<lparr> pending := rs \<rparr>))"
| "dispatch (Timer i) w = w\<lparr> host := fire i (host w) \<rparr>"

text \<open>
  \<^verbatim>\<open>{isAnalyzing && <AnalysisProgress />}\<close>: after the handlers of an event have run, the
  component is mounted (its effect runs) when the block appears and unmounted (the cleanup
  of its effect runs) when the block disappears, also when it disappears with the page.
\<close>

definition render :: "world \<Rightarrow> world" where
  "render w =
     (if showsProgress (ui w) \<and> \<not> mounted w then w\<lparr> host := effect (host w), mounted := True \<rparr>
      else if \<not> showsProgress (ui w) \<and> mounted w then w\<lparr> host := cleanup (host w), mounted := False \<rparr>
      else w)"

definition react :: "event \<Rightarrow> world \<Rightarrow> world" where
  "react e w = render (dispatch e w)"

fun reacts :: "event list \<Rightarrow> world \<Rightarrow> world" where
  "reacts [] w = w"
| "reacts (e # es) w = reacts es (react e w)"

text \<open>The invariant of the page, kept by every event.\<close>

definition page_ok :: "world \<Rightarrow> bool" where
  "page_ok w =
     ((mounted w \<longleftrightarrow> isAnalyzing (ui w)) \<and>
      (if mounted w then alive (host w) else timers (host w) = []) \<and>
      length (pending w) = (if isAnalyzing (ui w) then 1 else 0) \<and>
      (isAnalyzing (ui w) \<longrightarrow> analysisResult (ui w) = JNull \<and> analysisError (ui w) = None) \<and>
      (analysisResult (ui w) = JNull \<or> analysisError (ui w) = None))"

text \<open>A transport that answers every request with the same response.\<close>

fun server :: "nat \<Rightarrow> string \<Rightarrow> string + json \<Rightarrow> request \<Rightarrow> outcome" where
  "server code txt b rq = Response \<lparr> status = code, statusText = txt, json_body = b \<rparr>"

section \<open>Evaluating double arithmetic\<close>

lemma bitlen_0: "bitlen 0 = 0"
  by (simp add: bitlen.simps)

lemma bitlen_1: "bitlen 1 = 1" "bitlen (Suc 0) = 1"
  by (simp_all add: bitlen.simps)

lemma bitlen_Bit0: "bitlen (numeral (Num.Bit0 n)) = Suc (bitlen (numeral n))"
  by (subst bitlen.simps) (simp add: numeral_Bit0_div_2)

lemma bitlen_Bit1: "bitlen (numeral (Num.Bit1 n)) = Suc (bitlen (numeral n))"
  by (subst bitlen.simps) (simp add: numeral_Bit1_div_2)

lemma bitlen_One: "bitlen (numeral Num.One) = 1"
  by (simp add: bitlen_1)

lemma floor_rat_numeral: "\<lfloor>numeral a / numeral b :: rat\<rfloor> = numeral a div numeral b"
  using floor_divide_of_int_eq [of "numeral a" "numeral b", where ?'a = rat] by simp

lemma ceiling_rat_numeral: "\<lceil>numeral a / numeral b :: rat\<rceil> = - ((- numeral a) div numeral b)"
  using ceiling_divide_eq_div [of "numeral a" "numeral b", where ?'a = rat] by simp

lemmas fl_eval = fl_def exponent_def pow2_def round_even_def Let_def
  bitlen_0 bitlen_1 bitlen_Bit0 bitlen_Bit1 bitlen_One floor_rat_numeral ceiling_rat_numeral

lemma increment_value: "increment = 7505999378950827 / 9007199254740992"
  by (simp add: increment_def fl_eval)

lemma walk_numeral: "walk (numeral k) x = rise x (fl (x + increment)) (pred_numeral k)"
  by (simp add: numeral_eq_Suc)

lemma walk_30: "walk 30 0 = Some (3518437208883199 / 140737488355328)"
  by (simp add: walk_numeral increment_value fl_eval)

lemma walk_60: "walk 30 (3518437208883199 / 140737488355328) = Some (7036874417766405 / 140737488355328)"
  by (simp add: walk_numeral increment_value fl_eval)

lemma walk_90: "walk 30 (7036874417766405 / 140737488355328) = Some (5277655813324801 / 70368744177664)"
  by (simp add: walk_numeral increment_value fl_eval)

lemma walk_120: "walk 30 (5277655813324801 / 70368744177664) = Some (7036874417766391 / 70368744177664)"
  by (simp add: walk_numeral increment_value fl_eval)

lemma walk_sound:
  "walk n (percent_after i) = Some y \<Longrightarrow>
   y = percent_after (i + n) \<and>
   (\<forall>j. i < j \<and> j \<le> i + n \<longrightarrow> percent_after (j - 1) < percent_after j \<and> percent_after j < 100)"
proof (induction n arbitrary: i)
  case 0
  then show ?case by simp
next
  case (Suc n)
  then have step: "percent_after i < percent_after (Suc i)" "percent_after (Suc i) < 100"
    and rest: "walk n (percent_after (Suc i)) = Some y"
    by (simp_all split: if_splits)
  from Suc.IH [OF rest] have ih: "y = percent_after (Suc i + n)"
    "\<And>j. Suc i < j \<Longrightarrow> j \<le> Suc i + n \<Longrightarrow>
       percent_after (j - 1) < percent_after j \<and> percent_after j < 100"
    by simp_all
  show ?case
  proof (intro conjI allI impI)
    show "y = percent_after (i + Suc n)" using ih(1) by simp
  next
    fix j assume j: "i < j \<and> j \<le> i + Suc n"
    show "percent_after (j - 1) < percent_after j"
    proof (cases "j = Suc i")
      case True
      then show ?thesis using step by simp
    next
      case False
      then show ?thesis using j ih(2) [of j] by simp
    qed
  next
    fix j assume j: "i < j \<and> j \<le> i + Suc n"
    show "percent_after j < 100"
    proof (cases "j = Suc i")
      case True
      then show ?thesis using step by simp
    next
      case False
      then show ?thesis using j ih(2) [of j] by simp
    qed
  qed
qed

lemma percent_checkpoints:
  "percent_after 30 = 3518437208883199 / 140737488355328"
  "percent_after 60 = 7036874417766405 / 140737488355328"
  "percent_after 90 = 5277655813324801 / 70368744177664"
  "percent_after 120 = 7036874417766391 / 70368744177664"
proof -
  have "walk 30 (percent_after 0) = Some (3518437208883199 / 140737488355328)"
    using walk_30 by simp
  from walk_sound [OF this, THEN conjunct1]
  show a: "percent_after 30 = 3518437208883199 / 140737488355328"
    by (simp only: add_0 simp_thms)
  have "walk 30 (percent_after 30) = Some (7036874417766405 / 140737488355328)"
    using walk_60 by (simp only: a)
  from walk_sound [OF this, THEN conjunct1]
  show b: "percent_after 60 = 7036874417766405 / 140737488355328"
    by simp
  have "walk 30 (percent_after 60) = Some (5277655813324801 / 70368744177664)"
    using walk_90 by (simp only: b)
  from walk_sound [OF this, THEN conjunct1]
  show c: "percent_after 90 = 5277655813324801 / 70368744177664"
    by simp
  have "walk 30 (percent_after 90) = Some (7036874417766391 / 70368744177664)"
    using walk_120 by (simp only: c)
  from walk_sound [OF this, THEN conjunct1]
  show "percent_after 120 = 7036874417766391 / 70368744177664"
    by simp
qed

lemma percent_steps:
  assumes "0 < j" "j \<le> 120"
  shows "percent_after (j - 1) < percent_after j \<and> percent_after j < 100"
proof -
  have w: "walk 30 (percent_after 0) = Some (percent_after 30)"
          "walk 30 (percent_after 30) = Some (percent_after 60)"
          "walk 30 (percent_after 60) = Some (percent_after 90)"
          "walk 30 (percent_after 90) = Some (percent_after 120)"
    using walk_30 walk_60 walk_90 walk_120
    by (simp_all only: percent_checkpoints percent_after.simps(1))
  consider "j \<le> 30" | "30 < j" "j \<le> 60" | "60 < j" "j \<le> 90" | "90 < j"
    by linarith
  then show ?thesis
  proof cases
    case 1
    then show ?thesis using walk_sound [OF w(1)] assms by simp
  next
    case 2
    then show ?thesis using walk_sound [OF w(2)] by simp
  next
    case 3
    then show ?thesis using walk_sound [OF w(3)] by simp
  next
    case 4
    then show ?thesis using walk_sound [OF w(4)] assms by simp
  qed
qed

lemma percent_below: "j \<le> 120 \<Longrightarrow> percent_after j < 100"
  using percent_steps [of j] by (cases "j = 0") simp_all

lemma percent_rising: "j < 120 \<Longrightarrow> percent_after j < percent_after (Suc j)"
  using percent_steps [of "Suc j"] by simp

section \<open>The simulator never leaves a timer behind\<close>

lemma ownedD:
  assumes "owned s" "t \<in> set (timers s)"
  shows "progressTimer s = Some (tid t) \<or> (stageTimer s = Some (tid t) \<and> period t = None)"
  using assms by (cases "cb t") (auto simp: owned_def)

lemma startStage_in_range:
  "stageIndex < length stages \<Longrightarrow>
   startStage stageIndex s =
     s\<lparr> timers := timers s @
            [\<lparr> tid = nextId s, due = now s + 100, period = Some 100,
               cb = ProgressTick (fl (100 / fl (of_nat (duration (stages ! stageIndex)) / 100))) \<rparr>,
             \<lparr> tid = nextId s + 1, due = now s + duration (stages ! stageIndex), period = None,
               cb = StageEnd stageIndex \<rparr>],
        nextId := nextId s + 2,
        progressTimer := Some (nextId s),
        stageTimer := Some (nextId s + 1),
        progressValue := 0,
        currentStage := stageIndex,
        progress := 0,
        onTickCalls := onTickCalls s + 2 \<rparr>"
  by (subst startStage.simps)
     (simp add: setCurrentStage_def setProgress_def setInterval_def setTimeout_def Let_def)

lemma startStage_wrap:
  "length stages \<le> stageIndex \<Longrightarrow>
   startStage stageIndex s = startStage 0 (setProgress 0 (setCurrentStage 0 s))"
  by (subst startStage.simps) simp

lemma length_stages: "length stages = 3"
  by (simp add: stages_def)

lemma owned_startStage:
  assumes "timers s = []"
  shows "owned (startStage i s)"
proof (cases "i < length stages")
  case True
  then show ?thesis using assms
    by (simp add: startStage_in_range owned_def)
next
  case False
  have "timers (setProgress 0 (setCurrentStage 0 s)) = []"
    using assms by (simp add: setProgress_def setCurrentStage_def)
  then have "owned (startStage 0 (setProgress 0 (setCurrentStage 0 s)))"
    by (simp add: startStage_in_range owned_def length_stages)
  with False show ?thesis by (simp add: startStage_wrap)
qed

lemma find_tid:
  "find (\<lambda>t. tid t = i) ts = Some t \<Longrightarrow> t \<in> set ts \<and> tid t = i"
  by (induction ts) (auto split: if_splits)

lemma owned_fire:
  assumes "owned s"
  shows "owned (fire i s)"
proof (cases "find (\<lambda>t. tid t = i) (timers s)")
  case None
  then show ?thesis using assms by (simp add: fire_def)
next
  case (Some t)
  then have t: "t \<in> set (timers s)" "tid t = i" using find_tid by blast+
  show ?thesis
  proof (cases "cb t")
    case (ProgressTick inc)
    then show ?thesis using assms Some
      by (auto simp: fire_def owned_def rearm_def clearTimer_def setProgress_def Let_def
               split: option.splits callback.splits)
  next
    case (StageEnd j)
    from assms t StageEnd have st: "stageTimer s = Some i" "period t = None"
      by (auto simp: owned_def)
    have "timers (clearTimer (progressTimer s)
             (s\<lparr> now := max (now s) (due t), timers := rearm t (timers s) \<rparr>)) = []"
    proof -
      have "\<forall>u \<in> set (timers s). tid u = i \<or> progressTimer s = Some (tid u)"
        using ownedD [OF assms] st by auto
      then show ?thesis using st t
        by (auto simp: rearm_def clearTimer_def filter_empty_conv split: option.splits)
    qed
    then show ?thesis using Some StageEnd
      by (simp add: fire_def owned_startStage)
  qed
qed

lemma owned_fires: "owned s \<Longrightarrow> owned (fires js s)"
  by (induction js arbitrary: s) (simp_all add: owned_fire)

lemma owned_effect: "timers s = [] \<Longrightarrow> owned (effect s)"
  by (simp add: effect_def owned_startStage)

lemma timers_cleanup:
  assumes "owned s"
  shows "timers (cleanup s) = []"
proof -
  have "\<forall>u \<in> set (timers s). stageTimer s = Some (tid u) \<or> progressTimer s = Some (tid u)"
    using ownedD [OF assms] by auto
  then show ?thesis
    by (auto simp: cleanup_def clearTimer_def filter_empty_conv split: option.splits)
qed

lemma fire_idle: "timers s = [] \<Longrightarrow> fire i s = s"
  by (simp add: fire_def)

lemma fires_idle: "timers s = [] \<Longrightarrow> fires js s = s"
  by (induction js) (simp_all add: fire_idle)

lemma step_idle: "timers s = [] \<Longrightarrow> step b s = s"
  by (simp add: step_def)

lemma run_idle: "timers s = [] \<Longrightarrow> run b n s = s"
  by (induction n) (simp_all add: step_idle)

lemma cleanup_idle: "timers s = [] \<Longrightarrow> cleanup s = s"
  by (simp add: cleanup_def clearTimer_def split: option.splits)

lemma effect_host0:
  "effect host0 =
     \<lparr> now = 0, nextId = 3,
       timers = [\<lparr> tid = 1, due = 100, period = Some 100, cb = ProgressTick increment \<rparr>,
                 \<lparr> tid = 2, due = 12000, period = None, cb = StageEnd 0 \<rparr>],
       stageTimer = Some 2, progressTimer = Some 1, progressValue = 0,
       currentStage = 0, progress = 0, onTickCalls = 2 \<rparr>"
  by (simp add: effect_def host0_def startStage_in_range stages_def increment_def)

text \<open>
  C1. Once the cleanup of the effect has run, no timer of the simulator is live: whatever
  timers had fired before (\<open>pre\<close>, any stage and any tick offset), firing any handles
  afterwards (\<open>post\<close>) or letting the host run for any number of steps changes nothing,
  so neither setter is ever called again; and running the cleanup a second time changes
  nothing either.
\<close>

theorem stop_no_further_onTick:
  assumes "timers s0 = []"
  shows "fires post (cleanup (fires pre (effect s0))) = cleanup (fires pre (effect s0))
       \<and> run timeoutFirst n (cleanup (fires pre (effect s0))) = cleanup (fires pre (effect s0))
       \<and> onTickCalls (fires post (cleanup (fires pre (effect s0))))
            = onTickCalls (cleanup (fires pre (effect s0)))
       \<and> onTickCalls (run timeoutFirst n (cleanup (fires pre (effect s0))))
            = onTickCalls (cleanup (fires pre (effect s0)))
       \<and> cleanup (cleanup (fires pre (effect s0))) = cleanup (fires pre (effect s0))"
proof -
  have "owned (fires pre (effect s0))"
    using assms by (simp add: owned_effect owned_fires)
  then have "timers (cleanup (fires pre (effect s0))) = []"
    by (simp add: timers_cleanup)
  then show ?thesis
    by (simp add: fires_idle run_idle cleanup_idle)
qed

theorem stop_no_further_onTick_witness:
  "timers host0 = []
   \<and> timers (fires [1] (effect host0)) \<noteq> []
   \<and> fires [1, 2] (cleanup (fires [1] (effect host0))) = cleanup (fires [1] (effect host0))
   \<and> onTickCalls (fires [1, 2] (cleanup (fires [1] (effect host0)))) = 3"
proof -
  have h: "timers host0 = []"
    by (simp add: host0_def)
  have tick: "\<not> 100 \<le> fl increment"
    by (simp add: increment_value fl_eval)
  have live: "timers (fires [1] (effect host0)) \<noteq> []"
    by (simp add: effect_host0 fire_def rearm_def setProgress_def Let_def tick)
  have calls: "onTickCalls (cleanup (fires [1] (effect host0))) = 3"
    by (simp add: effect_host0 fire_def rearm_def setProgress_def cleanup_def clearTimer_def
                  Let_def tick)
  from stop_no_further_onTick [OF h, of "[1, 2]" "[1]" True 0] h live calls
  show ?thesis by simp
qed

section \<open>The request body and the error contract of the client\<close>

text \<open>
  C5. The request body always has the key \<open>project_path\<close>, bound to the given path as it is
  (also when it is empty or blank; \<open>"."\<close> when the argument is absent), and it has the key
  \<open>analysis_prompt\<close> exactly when the prompt argument is a non-empty string, bound to that
  string; the key is never present with the value \<open>null\<close>.
\<close>

theorem request_body_keys:
  "map_of (body (buildRequest baseUrl (Some p) a)) ''project_path'' = Some (JString p)
   \<and> map_of (body (buildRequest baseUrl None a)) ''project_path'' = Some (JString ''.'')
   \<and> (''analysis_prompt'' \<in> fst ` set (body (buildRequest baseUrl q a))
        \<longleftrightarrow> (\<exists>x. a = Some x \<and> x \<noteq> []))
   \<and> (\<forall>x. a = Some x \<and> x \<noteq> [] \<longrightarrow>
          map_of (body (buildRequest baseUrl q a)) ''analysis_prompt'' = Some (JString x))
   \<and> map_of (body (buildRequest baseUrl q a)) ''analysis_prompt'' \<noteq> Some JNull"
  by (auto simp: buildRequest_def Let_def split: option.splits)

theorem request_body_keys_witness:
  "body (buildRequest API_BASE (Some ''  '') (Some ''hi''))
     = [(''project_path'', JString ''  ''), (''analysis_prompt'', JString ''hi'')]
   \<and> body (buildRequest API_BASE (Some []) (Some [])) = [(''project_path'', JString [])]
   \<and> map_of (body (buildRequest API_BASE (Some ''  '') (Some ''hi''))) ''analysis_prompt''
       = Some (JString ''hi'')
   \<and> ''analysis_prompt'' \<notin> fst ` set (body (buildRequest API_BASE (Some []) None))"
  using request_body_keys [of API_BASE "''  ''" "Some ''hi''" "Some ''  ''"]
        request_body_keys [of API_BASE "[]" "None" "Some []"]
  by (simp add: buildRequest_def)




text \<open>
  C9, as stated, fails: a body that is the JSON value \<open>null\<close> parses and has no \<open>detail\<close>,
  yet reading \<^verbatim>\<open>errorData.detail\<close> throws inside the \<^verbatim>\<open>try\<close>, so the \<^verbatim>\<open>catch\<close> branch
  builds the message from the status text.
\<close>

theorem no_detail_null_body:
  "\<not> ok \<lparr> status = 500, statusText = ''Internal Server Error'', json_body = Inr JNull \<rparr>
   \<and> analyzeProject API_BASE (server 500 ''Internal Server Error'' (Inr JNull)) (Some ''.'') None
       = Inl (Text ''Failed to analyze project: Internal Server Error'')
   \<and> analyzeProject API_BASE (server 500 ''Internal Server Error'' (Inr JNull)) (Some ''.'') None
       \<noteq> Inl (Text ''Failed to analyze project'')"
  by (simp add: analyzeProject_def handleResponse_def ok_def)

text \<open>
  C9, amended. On a response that is not 2xx whose body parses as a JSON value other than
  \<open>null\<close> and that has no truthy \<open>detail\<close> (no such key, a falsy value, or a value that is
  not an object at all), the call rejects with the fixed message
  \<open>Failed to analyze project\<close>.
\<close>

theorem no_detail_fixed_message:
  assumes "fetch (buildRequest baseUrl p a) = Response r" and "\<not> ok r"
      and "json_body r = Inr v" and "v \<noteq> JNull"
      and "\<not> (\<exists>kvs d. v = JObject kvs \<and> map_of kvs ''detail'' = Some d \<and> truthy d)"
  shows "analyzeProject baseUrl fetch p a = Inl (Text ''Failed to analyze project'')"
  using assms by (cases v) (auto simp: analyzeProject_def handleResponse_def split: option.splits)

theorem no_detail_fixed_message_witness:
  "\<not> ok \<lparr> status = 404, statusText = ''Not Found'',
           json_body = Inr (JObject [(''detail'', JString [])]) \<rparr>
   \<and> analyzeProject API_BASE (server 404 ''Not Found'' (Inr (JObject [(''detail'', JString [])])))
        (Some ''.'') None
       = Inl (Text ''Failed to analyze project'')"
  using no_detail_fixed_message
          [of "server 404 ''Not Found'' (Inr (JObject [(''detail'', JString [])]))"
              API_BASE "Some ''.''" None
              "\<lparr> status = 404, statusText = ''Not Found'',
                 json_body = Inr (JObject [(''detail'', JString [])]) \<rparr>"
              "JObject [(''detail'', JString [])]"]
  by (simp add: ok_def)

section \<open>The page keeps its invariant\<close>

lemma alive_startStage:
  assumes "timers s = []"
  shows "alive (startStage i s)"
proof (cases "i < length stages")
  case True
  then show ?thesis using assms
    by (simp add: startStage_in_range owned_def alive_def)
next
  case False
  have "timers (setProgress 0 (setCurrentStage 0 s)) = []"
    using assms by (simp add: setProgress_def setCurrentStage_def)
  then have "alive (startStage 0 (setProgress 0 (setCurrentStage 0 s)))"
    by (simp add: startStage_in_range owned_def alive_def length_stages)
  with False show ?thesis by (simp add: startStage_wrap)
qed

lemma alive_effect: "timers s = [] \<Longrightarrow> alive (effect s)"
  by (simp add: effect_def alive_startStage)

lemma alive_timers: "alive s \<Longrightarrow> timers s \<noteq> []"
  by (auto simp: alive_def)

lemma alive_owned: "alive s \<Longrightarrow> owned s"
  by (simp add: alive_def)

lemma aliveD:
  assumes "alive s"
  shows "\<exists>u \<in> set (timers s). \<exists>j. cb u = StageEnd j"
proof -
  from assms obtain u where u: "u \<in> set (timers s)"
      "case cb u of ProgressTick inc \<Rightarrow> False | StageEnd i \<Rightarrow> True"
    by (auto simp: alive_def)
  then show ?thesis by (cases "cb u") auto
qed

lemma in_rearm: "u \<in> set ts \<Longrightarrow> tid u \<noteq> tid t \<Longrightarrow> u \<in> set (rearm t ts)"
  by (auto simp: rearm_def split: option.splits)

lemma aliveI:
  assumes "owned s" "progressTimer s \<noteq> stageTimer s" "u \<in> set (timers s)" "cb u = StageEnd j"
  shows "alive s"
  using assms by (auto simp: alive_def intro!: bexI [of _ u])

lemma alive_fire:
  assumes "alive s"
  shows "alive (fire i s)"
proof (cases "find (\<lambda>t. tid t = i) (timers s)")
  case None
  then show ?thesis using assms by (simp add: fire_def)
next
  case (Some t)
  then have t: "t \<in> set (timers s)" "tid t = i" using find_tid by blast+
  have o: "owned s" using assms by (rule alive_owned)
  show ?thesis
  proof (cases "cb t")
    case (ProgressTick inc)
    with o t have pt: "progressTimer s = Some i" by (auto simp: owned_def)
    from aliveD [OF assms] obtain u j where u: "u \<in> set (timers s)" "cb u = StageEnd j"
      by blast
    with o have su: "stageTimer s = Some (tid u)" by (auto simp: owned_def)
    with assms pt have ne: "tid u \<noteq> i" by (auto simp: alive_def)
    have own: "owned (fire i s)" using o by (rule owned_fire)
    have "u \<in> set (rearm t (timers s))"
      using u ne t by (simp add: in_rearm)
    then have "u \<in> set (timers (fire i s))"
      using Some ProgressTick ne pt
      by (simp add: fire_def clearTimer_def setProgress_def Let_def)
    then have keep: "\<exists>x \<in> set (timers (fire i s)). \<exists>j. cb x = StageEnd j"
      using u by blast
    have same: "progressTimer (fire i s) = progressTimer s \<and> stageTimer (fire i s) = stageTimer s"
      using Some ProgressTick
      by (simp add: fire_def clearTimer_def setProgress_def Let_def split: option.splits)
    have "progressTimer (fire i s) \<noteq> stageTimer (fire i s)"
      using same assms by (simp add: alive_def)
    with own keep show ?thesis by (blast intro: aliveI)
  next
    case (StageEnd j)
    from o t StageEnd have st: "stageTimer s = Some i" "period t = None"
      by (auto simp: owned_def)
    have "timers (clearTimer (progressTimer s)
             (s\<lparr> now := max (now s) (due t), timers := rearm t (timers s) \<rparr>)) = []"
    proof -
      have "\<forall>u \<in> set (timers s). tid u = i \<or> progressTimer s = Some (tid u)"
        using ownedD [OF o] st by auto
      then show ?thesis using st t
        by (auto simp: rearm_def clearTimer_def filter_empty_conv split: option.splits)
    qed
    then show ?thesis using Some StageEnd
      by (simp add: fire_def alive_startStage)
  qed
qed

lemma no_throw_null: "analysisResult a = JNull \<Longrightarrow> \<not> pageThrows a"
  by (simp add: pageThrows_def fileMetadata_def sidebarThrows_def)

lemma page_ok_quiet: "page_ok w \<Longrightarrow> isAnalyzing (ui w) \<Longrightarrow> \<not> pageThrows (ui w)"
  by (simp add: page_ok_def no_throw_null)

lemma page_ok_world0: "page_ok world0"
  by (simp add: page_ok_def world0_def host0_def)

lemma page_ok_render:
  assumes "if mounted w then alive (host w) else timers (host w) = []"
      and "length (pending w) = (if isAnalyzing (ui w) then 1 else 0)"
      and "isAnalyzing (ui w) \<longrightarrow> analysisResult (ui w) = JNull \<and> analysisError (ui w) = None"
      and "analysisResult (ui w) = JNull \<or> analysisError (ui w) = None"
  shows "page_ok (render w)"
  using assms
  by (auto simp: page_ok_def render_def showsProgress_def alive_effect timers_cleanup alive_owned
                 no_throw_null
           split: if_splits)

lemma page_ok_react:
  assumes "page_ok w"
  shows "page_ok (react e w)"
proof (cases e)
  case ClickAnalyze
  then show ?thesis using assms unfolding react_def
    by (intro page_ok_render) (auto simp: page_ok_def handleAnalyzeClick_def Let_def)
next
  case ClickRetry
  then show ?thesis using assms unfolding react_def
    by (intro page_ok_render) (auto simp: page_ok_def handleAnalyzeClick_def showsError_def Let_def)
next
  case (ChangePath p)
  then show ?thesis using assms unfolding react_def
    by (intro page_ok_render) (auto simp: page_ok_def)
next
  case (ChangePrompt a)
  then show ?thesis using assms unfolding react_def
    by (intro page_ok_render) (auto simp: page_ok_def)
next
  case UseSamplePrompt
  then show ?thesis using assms unfolding react_def
    by (intro page_ok_render) (auto simp: page_ok_def)
next
  case (Settle out)
  then show ?thesis using assms unfolding react_def
    by (intro page_ok_render)
       (auto simp: page_ok_def settled_def Let_def no_throw_null
             split: list.splits sum.splits if_splits)
next
  case (Timer i)
  then show ?thesis using assms unfolding react_def
    by (intro page_ok_render) (auto simp: page_ok_def alive_fire fire_idle)
qed

lemma page_ok_reacts: "page_ok w \<Longrightarrow> page_ok (reacts es w)"
  by (induction es arbitrary: w) (simp_all add: page_ok_react)

lemma page_ok_reachable: "page_ok (reacts es world0)"
  by (simp add: page_ok_reacts page_ok_world0)

lemma running_shown: "sessionState a = Running \<longleftrightarrow> showsProgress a"
  by (simp add: sessionState_def)

lemma running_iff: "page_ok w \<Longrightarrow> sessionState (ui w) = Running \<longleftrightarrow> isAnalyzing (ui w)"
  using page_ok_quiet [of w] by (auto simp: running_shown showsProgress_def)

lemma render_stable: "page_ok w \<Longrightarrow> render w = w"
  using page_ok_quiet [of w] by (auto simp: page_ok_def render_def showsProgress_def)


lemma effect_fresh:
  "effect s =
     s\<lparr> timers := timers s @
            [\<lparr> tid = nextId s, due = now s + 100, period = Some 100, cb = ProgressTick increment \<rparr>,
             \<lparr> tid = nextId s + 1, due = now s + 12000, period = None, cb = StageEnd 0 \<rparr>],
        nextId := nextId s + 2,
        progressTimer := Some (nextId s),
        stageTimer := Some (nextId s + 1),
        progressValue := 0,
        currentStage := 0,
        progress := 0,
        onTickCalls := onTickCalls s + 2 \<rparr>"
  by (simp add: effect_def startStage_in_range stages_def increment_def)

lemmas page_eval =
  react_def render_def showsProgress_def showsError_def showsResults_def showsWelcome_def
  pageThrows_def sidebarThrows_def resultsThrow_def fileMetadata_def
  sessionState_def truthy_error_def handleAnalyzeClick_def settled_def orNull_def world0_def
  host0_def effect_fresh cleanup_def clearTimer_def Let_def

section \<open>The session\<close>

text \<open>
  C3. While the session is running, the analyze button of the sidebar is disabled and the
  retry button is not part of the page: a second start changes nothing. The state stays
  running, no second request is handed to \<^verbatim>\<open>fetch\<close>, and the one request that was
  submitted is still the only one pending.
\<close>


theorem second_start_rejected:
  assumes "sessionState (ui (reacts es world0)) = Running"
  shows "react ClickAnalyze (reacts es world0) = reacts es world0
       \<and> react ClickRetry (reacts es world0) = reacts es world0
       \<and> sent (react ClickAnalyze (reacts es world0)) = sent (reacts es world0)
       \<and> length (pending (react ClickAnalyze (reacts es world0))) = 1
       \<and> sessionState (ui (react ClickAnalyze (reacts es world0))) = Running"
proof -
  have ok: "page_ok (reacts es world0)" by (rule page_ok_reachable)
  have run: "isAnalyzing (ui (reacts es world0))" using assms ok by (simp add: running_iff)
  have a: "react ClickAnalyze (reacts es world0) = reacts es world0"
    using run ok by (simp add: react_def render_stable)
  have b: "react ClickRetry (reacts es world0) = reacts es world0"
    using run ok by (simp add: react_def showsError_def render_stable)
  have c: "length (pending (reacts es world0)) = 1"
    using run ok by (simp add: page_ok_def)
  show ?thesis using a b c assms by simp
qed

theorem second_start_rejected_witness:
  "sessionState (ui (reacts [ClickAnalyze] world0)) = Running
   \<and> sent (reacts [ClickAnalyze, ClickAnalyze] world0) = [buildRequest API_BASE (Some ''.'') None]
   \<and> pending (reacts [ClickAnalyze, ClickAnalyze] world0) = [buildRequest API_BASE (Some ''.'') None]
   \<and> reacts [ClickAnalyze, ClickAnalyze] world0 = reacts [ClickAnalyze] world0"
proof -
  have r: "sessionState (ui (reacts [ClickAnalyze] world0)) = Running"
    by (simp add: page_eval)
  have s: "sent (reacts [ClickAnalyze] world0) = [buildRequest API_BASE (Some ''.'') None]"
    by (simp add: page_eval)
  have p: "pending (reacts [ClickAnalyze] world0) = [buildRequest API_BASE (Some ''.'') None]"
    by (simp add: page_eval)
  from second_start_rejected [OF r] r s p show ?thesis by simp
qed

text \<open>
  C7. At every point a session can reach, the progress component is mounted, and the
  simulator holds live timers, exactly when the session is running. Its effect runs in
  the step that makes the session running and in no other step: while the session stays
  running the host changes only by the firing of a timer, and while it stays out of a
  run the host does not change at all. Its cleanup runs in the step that ends the run,
  and outside a run no timer is live.
\<close>


theorem simulator_active_iff_running:
  assumes "w = reacts es world0"
  shows "(mounted w \<longleftrightarrow> sessionState (ui w) = Running)
       \<and> (timers (host w) \<noteq> [] \<longleftrightarrow> sessionState (ui w) = Running)
       \<and> (sessionState (ui w) \<noteq> Running \<and> sessionState (ui (react e w)) = Running
            \<longrightarrow> host (react e w) = effect (host w))
       \<and> (sessionState (ui w) = Running \<and> sessionState (ui (react e w)) \<noteq> Running
            \<longrightarrow> host (react e w) = cleanup (host w) \<and> timers (host (react e w)) = [])
       \<and> (sessionState (ui w) = Running \<and> sessionState (ui (react e w)) = Running
            \<longrightarrow> host (react e w) = (case e of Timer i \<Rightarrow> fire i (host w) | _ \<Rightarrow> host w))
       \<and> (sessionState (ui w) \<noteq> Running \<and> sessionState (ui (react e w)) \<noteq> Running
            \<longrightarrow> host (react e w) = host w)"
proof -
  have ok: "page_ok w" using assms by (simp add: page_ok_reachable)
  then have ok': "page_ok (react e w)" by (rule page_ok_react)
  note r = running_iff [OF ok] running_iff [OF ok']
  have quiet: "isAnalyzing (ui w) \<longrightarrow> \<not> pageThrows (ui w)"
    using ok by (simp add: page_ok_quiet)
  have m: "mounted w \<longleftrightarrow> sessionState (ui w) = Running"
    using ok by (simp add: r page_ok_def)
  have t: "timers (host w) \<noteq> [] \<longleftrightarrow> sessionState (ui w) = Running"
    using ok by (auto simp: r page_ok_def alive_timers split: if_splits)
  have up: "sessionState (ui w) \<noteq> Running \<and> sessionState (ui (react e w)) = Running
            \<longrightarrow> host (react e w) = effect (host w)"
    unfolding r using ok
    by (cases e)
       (auto simp: react_def render_def showsProgress_def page_ok_def no_throw_null
                   handleAnalyzeClick_def settled_def Let_def
             split: list.splits sum.splits if_splits)
  have down: "sessionState (ui w) = Running \<and> sessionState (ui (react e w)) \<noteq> Running
            \<longrightarrow> host (react e w) = cleanup (host w)"
    unfolding r using ok quiet
    by (cases e)
       (auto simp: react_def render_def showsProgress_def page_ok_def no_throw_null
                   handleAnalyzeClick_def settled_def showsError_def Let_def
             split: list.splits sum.splits if_splits)
  have idle: "sessionState (ui (react e w)) \<noteq> Running \<longrightarrow> timers (host (react e w)) = []"
    using ok' by (auto simp: r page_ok_def split: if_splits)
  have stay: "sessionState (ui w) = Running \<and> sessionState (ui (react e w)) = Running
            \<longrightarrow> host (react e w) = (case e of Timer i \<Rightarrow> fire i (host w) | _ \<Rightarrow> host w)"
    unfolding r using ok quiet
    by (cases e)
       (auto simp: react_def render_def showsProgress_def page_ok_def no_throw_null
                   handleAnalyzeClick_def settled_def showsError_def Let_def
             split: list.splits sum.splits if_splits)
  have rest: "sessionState (ui w) \<noteq> Running \<and> sessionState (ui (react e w)) \<noteq> Running
            \<longrightarrow> host (react e w) = host w"
    unfolding r using ok
    by (cases e)
       (auto simp: react_def render_def showsProgress_def page_ok_def no_throw_null fire_idle
                   handleAnalyzeClick_def settled_def showsError_def Let_def
             split: list.splits sum.splits if_splits)
  show ?thesis using m t up down idle stay rest by blast
qed

theorem simulator_active_iff_running_witness:
  "sessionState (ui (reacts [ClickAnalyze, Timer 1] world0)) = Running
   \<and> mounted (reacts [ClickAnalyze, Timer 1] world0)
   \<and> timers (host (reacts [ClickAnalyze, Timer 1] world0)) \<noteq> []
   \<and> sessionState (ui (react (Settle (Inl (Text ''boom''))) (reacts [ClickAnalyze, Timer 1] world0)))
       = Failed (Text ''boom'')
   \<and> timers (host (react (Settle (Inl (Text ''boom''))) (reacts [ClickAnalyze, Timer 1] world0))) = []"
proof -
  have r: "sessionState (ui (reacts [ClickAnalyze, Timer 1] world0)) = Running"
    by (simp add: page_eval)
  have f: "sessionState (ui (react (Settle (Inl (Text ''boom''))) (reacts [ClickAnalyze, Timer 1] world0)))
       = Failed (Text ''boom'')"
    by (simp add: page_eval)
  have n: "sessionState (ui (react (Settle (Inl (Text ''boom''))) (reacts [ClickAnalyze, Timer 1] world0)))
       \<noteq> Running"
    by (simp only: f) simp
  from simulator_active_iff_running
         [where es = "[ClickAnalyze, Timer 1]" and e = "Settle (Inl (Text ''boom''))", OF refl] r f n
  show ?thesis by blast
qed

text \<open>
  C6, as stated, fails. A 2xx response whose body does not parse makes
  \<^verbatim>\<open>response.json()\<close> reject, so the call rejects and the session ends failed; and a 2xx
  response whose body is \<open>null\<close> resolves with \<open>null\<close>, which leaves the page showing the
  welcome text of the idle state, not the results.
\<close>

theorem success_unparsable_body:
  "ok \<lparr> status = 200, statusText = ''OK'', json_body = Inl ''Unexpected token <'' \<rparr>
   \<and> analyzeProject API_BASE (server 200 ''OK'' (Inl ''Unexpected token <'')) (Some ''.'') None
       = Inl (Text ''Unexpected token <'')
   \<and> sessionState (ui (reacts
         [ClickAnalyze,
          Settle (analyzeProject API_BASE (server 200 ''OK'' (Inl ''Unexpected token <'')) (Some ''.'') None)]
         world0))
       = Failed (Text ''Unexpected token <'')
   \<and> analyzeProject API_BASE (server 200 ''OK'' (Inr JNull)) (Some ''.'') None = Inr JNull
   \<and> sessionState (ui (reacts
         [ClickAnalyze,
          Settle (analyzeProject API_BASE (server 200 ''OK'' (Inr JNull)) (Some ''.'') None)]
         world0))
       = Idle"
  by (simp add: analyzeProject_def handleResponse_def ok_def page_eval)

text \<open>
  C6, amended. For every 2xx response whose body parses as JSON, the call resolves with
  the parsed value as it is; when that settles a running session, the page stores exactly
  that value as the result with no error, the run ends, the progress component is
  unmounted and its cleanup leaves no timer live. The session is succeeded with that
  payload when the payload is truthy and the fields the page displays render; when one
  of them is an object, rendering throws and the page is removed; a falsy payload leaves
  the page on the idle welcome text.
\<close>

theorem success_passes_body_through:
  assumes "fetch (buildRequest baseUrl p a) = Response r" and "ok r" and "json_body r = Inr v"
      and "w = reacts es world0" and "sessionState (ui w) = Running"
  shows "analyzeProject baseUrl fetch p a = Inr v
       \<and> analysisResult (ui (react (Settle (analyzeProject baseUrl fetch p a)) w)) = v
       \<and> analysisError (ui (react (Settle (analyzeProject baseUrl fetch p a)) w)) = None
       \<and> \<not> isAnalyzing (ui (react (Settle (analyzeProject baseUrl fetch p a)) w))
       \<and> \<not> mounted (react (Settle (analyzeProject baseUrl fetch p a)) w)
       \<and> host (react (Settle (analyzeProject baseUrl fetch p a)) w) = cleanup (host w)
       \<and> timers (host (react (Settle (analyzeProject baseUrl fetch p a)) w)) = []
       \<and> (truthy v \<and> \<not> sidebarThrows (fileMetadata v) \<and> \<not> resultsThrow v \<longrightarrow>
            sessionState (ui (react (Settle (analyzeProject baseUrl fetch p a)) w)) = Succeeded v)
       \<and> (truthy v \<and> (sidebarThrows (fileMetadata v) \<or> resultsThrow v) \<longrightarrow>
            sessionState (ui (react (Settle (analyzeProject baseUrl fetch p a)) w)) = Crashed)
       \<and> (\<not> truthy v \<longrightarrow>
            sessionState (ui (react (Settle (analyzeProject baseUrl fetch p a)) w)) = Idle)"
proof -
  have res: "analyzeProject baseUrl fetch p a = Inr v"
    using assms(1-3) by (simp add: analyzeProject_def handleResponse_def)
  have ok: "page_ok w" using assms(4) by (simp add: page_ok_reachable)
  have run: "isAnalyzing (ui w)" using assms(5) ok by (simp add: running_iff)
  have quiet: "\<not> pageThrows (ui w)" using ok run by (rule page_ok_quiet)
  from ok run obtain rq where pend: "pending w = [rq]"
    by (cases "pending w") (auto simp: page_ok_def)
  have none: "analysisError (ui w) = None" using ok run by (simp add: page_ok_def)
  have mt: "mounted w" using ok run by (simp add: page_ok_def)
  have own: "owned (host w)" using ok mt by (simp add: page_ok_def alive_owned)
  have st: "react (Settle (Inr v)) w
            = w\<lparr> pending := [], ui := (ui w)\<lparr> analysisResult := v, isAnalyzing := False \<rparr>,
                  host := cleanup (host w), mounted := False \<rparr>"
    using pend mt quiet by (simp add: react_def settled_def render_def showsProgress_def Let_def)
  have falsy: "\<not> truthy v \<Longrightarrow> fileMetadata v = JNull"
    by (cases v) (simp_all add: fileMetadata_def)
  have quietNull: "\<not> sidebarThrows JNull"
    by (simp add: sidebarThrows_def)
  show ?thesis
    using none own falsy quietNull
    by (auto simp: res st timers_cleanup sessionState_def showsProgress_def showsError_def
                   showsResults_def showsWelcome_def pageThrows_def truthy_error_def)
qed

theorem success_passes_body_through_witness:
  "ok \<lparr> status = 200, statusText = ''OK'', json_body = Inr (JObject [(''stage1'', JObject [])]) \<rparr>
   \<and> sessionState (ui (reacts [ClickAnalyze] world0)) = Running
   \<and> truthy (JObject [(''stage1'', JObject [])])
   \<and> sessionState (ui (react
         (Settle (analyzeProject API_BASE (server 200 ''OK'' (Inr (JObject [(''stage1'', JObject [])])))
                    (Some ''.'') None))
         (reacts [ClickAnalyze] world0)))
       = Succeeded (JObject [(''stage1'', JObject [])])
   \<and> sessionState (ui (react
         (Settle (analyzeProject API_BASE
                    (server 200 ''OK''
                       (Inr (JObject [(''metadata'',
                               JObject [(''file_analysis'',
                                  JObject [(''files_read'', JObject [(''a'', JNumber 1)])])])])))
                    (Some ''.'') None))
         (reacts [ClickAnalyze] world0)))
       = Crashed
   \<and> sessionState (ui (react
         (Settle (analyzeProject API_BASE
                    (server 200 ''OK''
                       (Inr (JObject [(''metadata'', JObject [(''source_path'', JObject [])])])))
                    (Some ''.'') None))
         (reacts [ClickAnalyze] world0)))
       = Crashed"
proof -
  let ?path = "JObject [(''metadata'', JObject [(''source_path'', JObject [])])]"
  let ?good = "JObject [(''stage1'', JObject [])]"
  let ?bad = "JObject [(''metadata'',
                 JObject [(''file_analysis'', JObject [(''files_read'', JObject [(''a'', JNumber 1)])])])]"
  have o: "ok \<lparr> status = 200, statusText = ''OK'', json_body = Inr ?good \<rparr>"
          "ok \<lparr> status = 200, statusText = ''OK'', json_body = Inr ?bad \<rparr>"
    by (simp_all add: ok_def)
  have f: "server 200 ''OK'' (Inr ?good) (buildRequest API_BASE (Some ''.'') None)
           = Response \<lparr> status = 200, statusText = ''OK'', json_body = Inr ?good \<rparr>"
          "server 200 ''OK'' (Inr ?bad) (buildRequest API_BASE (Some ''.'') None)
           = Response \<lparr> status = 200, statusText = ''OK'', json_body = Inr ?bad \<rparr>"
    by simp_all
  have r: "sessionState (ui (reacts [ClickAnalyze] world0)) = Running"
    by (simp add: page_eval)
  have g: "truthy ?good" "\<not> sidebarThrows (fileMetadata ?good)" "\<not> resultsThrow ?good"
    by (simp_all add: sidebarThrows_def resultsThrow_def fileMetadata_def)
  have b: "truthy ?bad" "sidebarThrows (fileMetadata ?bad)"
    by (simp_all add: sidebarThrows_def fileMetadata_def)
  have c: "truthy ?path" "\<not> sidebarThrows (fileMetadata ?path)" "resultsThrow ?path"
    by (simp_all add: sidebarThrows_def resultsThrow_def fileMetadata_def)
  have k: "ok \<lparr> status = 200, statusText = ''OK'', json_body = Inr ?path \<rparr>"
          "server 200 ''OK'' (Inr ?path) (buildRequest API_BASE (Some ''.'') None)
           = Response \<lparr> status = 200, statusText = ''OK'', json_body = Inr ?path \<rparr>"
          "json_body \<lparr> status = 200, statusText = ''OK'', json_body = Inr ?path \<rparr> = Inr ?path"
    by (simp_all add: ok_def)
  have j: "json_body \<lparr> status = 200, statusText = ''OK'', json_body = Inr ?good \<rparr> = Inr ?good"
          "json_body \<lparr> status = 200, statusText = ''OK'', json_body = Inr ?bad \<rparr> = Inr ?bad"
    by simp_all
  from success_passes_body_through
         [where fetch = "server 200 ''OK'' (Inr ?good)"
            and baseUrl = API_BASE and p = "Some ''.''" and a = None
            and v = ?good and es = "[ClickAnalyze]",
          OF f(1) o(1) j(1) refl r]
       success_passes_body_through
         [where fetch = "server 200 ''OK'' (Inr ?bad)"
            and baseUrl = API_BASE and p = "Some ''.''" and a = None
            and v = ?bad and es = "[ClickAnalyze]",
          OF f(2) o(2) j(2) refl r]
       success_passes_body_through
         [where fetch = "server 200 ''OK'' (Inr ?path)"
            and baseUrl = API_BASE and p = "Some ''.''" and a = None
            and v = ?path and es = "[ClickAnalyze]",
          OF k(2) k(1) k(3) refl r]
       o r g b c
  show ?thesis by blast
qed

text \<open>
  C8, as stated, fails: the inputs stay editable, and the retry button calls the same
  handler as the sidebar button, which reads the inputs as they are now. After a failed
  attempt on \<open>"."\<close> and an edit of the path, the retry submits the edited path.
\<close>

theorem retry_after_edit:
  "sessionState (ui (reacts [ClickAnalyze, Settle (Inl (Text ''boom'')), ChangePath ''other''] world0))
     = Failed (Text ''boom'')
   \<and> sent (reacts [ClickAnalyze, Settle (Inl (Text ''boom'')), ChangePath ''other''] world0)
       = [buildRequest API_BASE (Some ''.'') None]
   \<and> sent (reacts [ClickAnalyze, Settle (Inl (Text ''boom'')), ChangePath ''other'', ClickRetry] world0)
       = [buildRequest API_BASE (Some ''.'') None, buildRequest API_BASE (Some ''other'') None]
   \<and> buildRequest API_BASE (Some ''other'') None \<noteq> buildRequest API_BASE (Some ''.'') None"
  by (simp add: page_eval buildRequest_def)

text \<open>
  C8, amended. In the failed state, retry does exactly what start does: it submits a
  request built from the current path and prompt inputs. That is the last submitted
  request again whenever the inputs still hold the values that request was built from.
\<close>

theorem retry_is_start_on_current_inputs:
  assumes "sessionState (ui w) = Failed m"
  shows "react ClickRetry w = react ClickAnalyze w
       \<and> sent (react ClickRetry w)
           = sent w @ [buildRequest API_BASE (Some (projectPath (ui w))) (orNull (analysisPrompt (ui w)))]
       \<and> (sent w \<noteq> [] \<and>
          last (sent w) = buildRequest API_BASE (Some (projectPath (ui w))) (orNull (analysisPrompt (ui w)))
            \<longrightarrow> last (sent (react ClickRetry w)) = last (sent w))"
proof -
  have e: "showsError (ui w)" "\<not> isAnalyzing (ui w)" "\<not> pageThrows (ui w)"
    using assms by (auto simp: sessionState_def showsProgress_def showsError_def split: if_splits)
  have "dispatch ClickRetry w = handleAnalyzeClick w" "dispatch ClickAnalyze w = handleAnalyzeClick w"
    using e by simp_all
  then have same: "react ClickRetry w = react ClickAnalyze w"
    by (simp add: react_def)
  have "sent (react ClickRetry w)
          = sent w @ [buildRequest API_BASE (Some (projectPath (ui w))) (orNull (analysisPrompt (ui w)))]"
    using e by (simp add: react_def render_def handleAnalyzeClick_def Let_def)
  with same show ?thesis by simp
qed

theorem retry_is_start_on_current_inputs_witness:
  "sessionState (ui (reacts [ClickAnalyze, Settle (Inl (Text ''boom''))] world0)) = Failed (Text ''boom'')
   \<and> sent (react ClickRetry (reacts [ClickAnalyze, Settle (Inl (Text ''boom''))] world0))
       = [buildRequest API_BASE (Some ''.'') None, buildRequest API_BASE (Some ''.'') None]"
proof -
  have f: "sessionState (ui (reacts [ClickAnalyze, Settle (Inl (Text ''boom''))] world0))
             = Failed (Text ''boom'')"
    by (simp add: page_eval)
  have s: "sent (reacts [ClickAnalyze, Settle (Inl (Text ''boom''))] world0)
             = [buildRequest API_BASE (Some ''.'') None]"
    by (simp add: page_eval)
  have i: "projectPath (ui (reacts [ClickAnalyze, Settle (Inl (Text ''boom''))] world0)) = ''.''
         \<and> analysisPrompt (ui (reacts [ClickAnalyze, Settle (Inl (Text ''boom''))] world0)) = []"
    by (simp add: page_eval)
  have t: "sent (react ClickRetry (reacts [ClickAnalyze, Settle (Inl (Text ''boom''))] world0))
           = sent (reacts [ClickAnalyze, Settle (Inl (Text ''boom''))] world0)
             @ [buildRequest API_BASE
                  (Some (projectPath (ui (reacts [ClickAnalyze, Settle (Inl (Text ''boom''))] world0))))
                  (orNull (analysisPrompt (ui (reacts [ClickAnalyze, Settle (Inl (Text ''boom''))] world0))))]"
    using retry_is_start_on_current_inputs [OF f] by blast
  show ?thesis
    by (simp only: f t s i) (simp add: orNull_def)
qed

text \<open>
  C10. Every start clears the stored result and the stored error in the same step that
  hands the request to \<^verbatim>\<open>fetch\<close>. So at every point a session can reach at most one of
  them is set, both are \<^verbatim>\<open>null\<close> while the session is running, and a new attempt
  started from a succeeded session that then fails leaves the error set and the earlier
  result gone.
\<close>

theorem start_clears_result_and_error:
  assumes "w = reacts es world0"
  shows "analysisResult (ui (handleAnalyzeClick w)) = JNull
       \<and> analysisError (ui (handleAnalyzeClick w)) = None
       \<and> (analysisResult (ui w) = JNull \<or> analysisError (ui w) = None)
       \<and> (sessionState (ui w) = Running \<longrightarrow>
            analysisResult (ui w) = JNull \<and> analysisError (ui w) = None)
       \<and> (sessionState (ui w) = Succeeded v \<longrightarrow>
            sessionState (ui (react ClickAnalyze w)) = Running
            \<and> analysisResult (ui (reacts [ClickAnalyze, Settle (Inl m)] w)) = JNull
            \<and> analysisError (ui (reacts [ClickAnalyze, Settle (Inl m)] w)) = Some m)"
proof -
  have ok: "page_ok w" using assms by (simp add: page_ok_reachable)
  have a: "analysisResult (ui (handleAnalyzeClick w)) = JNull
         \<and> analysisError (ui (handleAnalyzeClick w)) = None"
    by (simp add: handleAnalyzeClick_def Let_def)
  have b: "analysisResult (ui w) = JNull \<or> analysisError (ui w) = None"
    using ok by (simp add: page_ok_def)
  have c: "sessionState (ui w) = Running \<longrightarrow>
            analysisResult (ui w) = JNull \<and> analysisError (ui w) = None"
    using ok by (simp add: page_ok_def running_iff)
  have d: "sessionState (ui w) = Succeeded v \<longrightarrow>
            sessionState (ui (react ClickAnalyze w)) = Running
            \<and> analysisResult (ui (reacts [ClickAnalyze, Settle (Inl m)] w)) = JNull
            \<and> analysisError (ui (reacts [ClickAnalyze, Settle (Inl m)] w)) = Some m"
  proof
    assume "sessionState (ui w) = Succeeded v"
    then have idle: "\<not> isAnalyzing (ui w)" "\<not> pageThrows (ui w)"
      by (auto simp: sessionState_def showsProgress_def showsResults_def split: if_splits)
    with ok have p: "pending w = []" "\<not> mounted w" by (auto simp: page_ok_def)
    show "sessionState (ui (react ClickAnalyze w)) = Running
          \<and> analysisResult (ui (reacts [ClickAnalyze, Settle (Inl m)] w)) = JNull
          \<and> analysisError (ui (reacts [ClickAnalyze, Settle (Inl m)] w)) = Some m"
      using idle p
      by (simp add: react_def render_def showsProgress_def handleAnalyzeClick_def settled_def
                    sessionState_def no_throw_null Let_def)
  qed
  show ?thesis using a b c d by blast
qed

theorem start_clears_result_and_error_witness:
  "sessionState (ui (reacts [ClickAnalyze, Settle (Inr (JBool True))] world0)) = Succeeded (JBool True)
   \<and> analysisResult (ui (reacts [ClickAnalyze, Settle (Inr (JBool True))] world0)) = JBool True
   \<and> analysisResult (ui (reacts [ClickAnalyze, Settle (Inl (Text ''boom''))]
                            (reacts [ClickAnalyze, Settle (Inr (JBool True))] world0))) = JNull
   \<and> analysisError (ui (reacts [ClickAnalyze, Settle (Inl (Text ''boom''))]
                            (reacts [ClickAnalyze, Settle (Inr (JBool True))] world0)))
       = Some (Text ''boom'')"
proof -
  have s: "sessionState (ui (reacts [ClickAnalyze, Settle (Inr (JBool True))] world0))
             = Succeeded (JBool True)"
    by (simp add: page_eval)
  have r: "analysisResult (ui (reacts [ClickAnalyze, Settle (Inr (JBool True))] world0)) = JBool True"
    by (simp add: page_eval)
  from start_clears_result_and_error
         [where es = "[ClickAnalyze, Settle (Inr (JBool True))]" and v = "JBool True"
            and m = "Text ''boom''", OF refl] s r
  show ?thesis by blast
qed

section \<open>The stages cycle\<close>

lemma stage_duration: "i < 3 \<Longrightarrow> duration (stages ! i) = 12000"
proof -
  assume "i < 3"
  then consider "i = 0" | "i = 1" | "i = 2" by linarith
  then show ?thesis by cases (simp_all add: stages_def)
qed

lemma startStage_stage_at:
  assumes "timers s = []" "i < 3"
  shows "startStage i s = stage_at (now s) (nextId s) i 0 (onTickCalls s + 2)"
  using assms
  by (cases s)
     (simp add: startStage_in_range length_stages stage_at_def stage_duration increment_def)

lemma step_tick:
  assumes "j < 119 \<or> (j = 119 \<and> \<not> b)"
  shows "step b (stage_at t k i j c) = stage_at t k i (Suc j) c"
proof -
  from assms have "Suc j \<le> 120" by auto
  then have "\<not> 100 \<le> fl (percent_after j + increment)"
    using percent_below [of "Suc j"] by simp
  then show ?thesis using assms
    by (auto simp: step_def stage_at_def before_def fire_def rearm_def setProgress_def Let_def)
qed

lemma run_add: "run b (m + n) s = run b n (run b m s)"
  by (induction m arbitrary: s) simp_all

lemma run_ticks: "j + m \<le> 119 \<Longrightarrow> run b m (stage_at t k i j c) = stage_at t k i (j + m) c"
proof (induction m arbitrary: j)
  case 0
  then show ?case by simp
next
  case (Suc m)
  then have "j < 119" "Suc j + m \<le> 119" by simp_all
  then show ?case using Suc.IH [of "Suc j"] by (simp add: step_tick)
qed

lemma startStage_next:
  assumes "timers s = []" "i < 3"
  shows "\<exists>c. startStage (Suc i) s = stage_at (now s) (nextId s) (Suc i mod 3) 0 c"
proof (cases "Suc i < 3")
  case True
  then show ?thesis using assms by (auto simp: startStage_stage_at)
next
  case False
  with assms have i: "Suc i = 3" by simp
  have "timers (setProgress 0 (setCurrentStage 0 s)) = []"
       "now (setProgress 0 (setCurrentStage 0 s)) = now s"
       "nextId (setProgress 0 (setCurrentStage 0 s)) = nextId s"
    using assms by (simp_all add: setProgress_def setCurrentStage_def)
  then show ?thesis
    using startStage_stage_at [of "setProgress 0 (setCurrentStage 0 s)" 0]
    by (auto simp: i startStage_wrap length_stages)
qed

lemma step_timeout:
  assumes "i < 3" and "(j = 119 \<and> b) \<or> j = 120"
  shows "\<exists>c'. step b (stage_at t k i j c) = stage_at (t + 12000) (k + 2) (Suc i mod 3) 0 c'"
proof -
  let ?s = "\<lparr> now = t + 12000, nextId = k + 2, timers = [],
             stageTimer = Some (k + 1), progressTimer = Some k,
             progressValue = percent_after j, currentStage = i,
             progress = percent_after j, onTickCalls = c + j \<rparr>"
  have "step b (stage_at t k i j c) = startStage (Suc i) ?s"
    using assms(2)
    by (auto simp: step_def stage_at_def before_def fire_def rearm_def clearTimer_def)
  moreover have "\<exists>c'. startStage (Suc i) ?s = stage_at (now ?s) (nextId ?s) (Suc i mod 3) 0 c'"
    using assms(1) by (intro startStage_next) simp_all
  ultimately show ?thesis by simp
qed

lemma run_stage:
  assumes "i < 3"
  shows "\<exists>c'. run b (events_per_stage b) (stage_at t k i 0 c)
               = stage_at (t + 12000) (k + 2) (Suc i mod 3) 0 c'"
proof (cases b)
  case True
  have "run True (119 + 1) (stage_at t k i 0 c) = step True (stage_at t k i 119 c)"
    by (simp only: run_add) (simp add: run_ticks)
  then show ?thesis using True step_timeout [OF assms, of 119 True t k c]
    by (simp add: events_per_stage_def)
next
  case False
  have "run False (119 + 2) (stage_at t k i 0 c) = step False (step False (stage_at t k i 119 c))"
    by (simp only: run_add) (simp add: run_ticks numeral_2_eq_2)
  then show ?thesis using False step_timeout [OF assms, of 120 False t k c]
    by (simp add: events_per_stage_def step_tick)
qed

lemma run_stages:
  assumes "timers s0 = []"
  shows "\<exists>c. run b (n * events_per_stage b) (effect s0)
             = stage_at (now s0 + 12000 * n) (nextId s0 + 2 * n) (n mod 3) 0 c"
proof (induction n)
  case 0
  have "effect s0 = stage_at (now s0) (nextId s0) 0 0 (onTickCalls s0 + 2)"
    using assms startStage_stage_at [of "s0\<lparr> stageTimer := None, progressTimer := None, progressValue := 0 \<rparr>" 0]
    by (simp add: effect_def)
  then show ?case by auto
next
  case (Suc n)
  then obtain c where c: "run b (n * events_per_stage b) (effect s0)
             = stage_at (now s0 + 12000 * n) (nextId s0 + 2 * n) (n mod 3) 0 c" by blast
  have "n mod 3 < 3" by simp
  from run_stage [OF this, of b "now s0 + 12000 * n" "nextId s0 + 2 * n" c]
  obtain c' where "run b (events_per_stage b) (stage_at (now s0 + 12000 * n) (nextId s0 + 2 * n) (n mod 3) 0 c)
               = stage_at (now s0 + 12000 * n + 12000) (nextId s0 + 2 * n + 2) (Suc (n mod 3) mod 3) 0 c'"
    by blast
  moreover have "run b (Suc n * events_per_stage b) (effect s0)
        = run b (events_per_stage b) (run b (n * events_per_stage b) (effect s0))"
    by (simp add: run_add [symmetric] add.commute)
  ultimately have "run b (Suc n * events_per_stage b) (effect s0)
        = stage_at (now s0 + 12000 * Suc n) (nextId s0 + 2 * Suc n) (Suc n mod 3) 0 c'"
    by (simp add: c mod_Suc_eq ac_simps)
  then show ?case by blast
qed

lemma progress_startStage: "progress (startStage i s) = 0"
proof (cases "i < length stages")
  case True
  then show ?thesis by (simp add: startStage_in_range)
next
  case False
  then show ?thesis by (simp add: startStage_wrap startStage_in_range length_stages)
qed

lemma progress_fire:
  assumes "progress s \<le> 100"
  shows "progress (fire i s) \<le> 100"
proof (cases "find (\<lambda>t. tid t = i) (timers s)")
  case None
  then show ?thesis using assms by (simp add: fire_def)
next
  case (Some t)
  then show ?thesis
    by (cases "cb t")
       (simp_all add: fire_def progress_startStage setProgress_def clearTimer_def Let_def
                 split: option.splits)
qed

lemma progress_fires: "progress s \<le> 100 \<Longrightarrow> progress (fires js s) \<le> 100"
  by (induction js arbitrary: s) (simp_all add: progress_fire)

lemma progress_step: "progress s \<le> 100 \<Longrightarrow> progress (step b s) \<le> 100"
  by (simp add: step_def progress_fire split: option.splits)

lemma progress_run: "progress s \<le> 100 \<Longrightarrow> progress (run b m s) \<le> 100"
  by (induction m arbitrary: s) (simp_all add: progress_step)

lemma progress_effect: "progress (effect s) = 0"
  by (simp add: effect_def progress_startStage)

text \<open>
  C4. There are exactly three stages, each of 12000 ms. On the host's schedule, with
  either order at a tie, \<open>n\<close> whole stages after the start the simulator shows stage
  \<open>n mod 3\<close> at percentage 0, so the fourth stage is stage 0 again and the cycle never ends
  by itself (a timer is always live). \<open>j\<close> ticks later, 100 ms apart, the percentage is
  the result of \<open>j\<close> double additions of one and the same increment, the double nearest to
  5/6; each of the up to 120 additions of a stage raises the percentage and leaves it
  below 100, also the 120th, which happens when the interval wins the tie with the
  timeout. On every schedule the percentage never exceeds 100.
\<close>

theorem stage_cycle:
  assumes "timers s0 = []"
  shows "length stages = 3 \<and> (\<forall>st \<in> set stages. duration st = 12000)
       \<and> (j \<le> 119 \<longrightarrow>
            currentStage (run b (n * events_per_stage b + j) (effect s0)) = n mod 3
            \<and> progress (run b (n * events_per_stage b + j) (effect s0)) = percent_after j
            \<and> now (run b (n * events_per_stage b + j) (effect s0)) = now s0 + 12000 * n + 100 * j
            \<and> timers (run b (n * events_per_stage b + j) (effect s0)) \<noteq> [])
       \<and> (\<not> b \<longrightarrow>
            currentStage (run b (n * events_per_stage b + 120) (effect s0)) = n mod 3
            \<and> progress (run b (n * events_per_stage b + 120) (effect s0)) = percent_after 120)
       \<and> percent_after 0 = 0
       \<and> (\<forall>i. percent_after (Suc i) = fl (percent_after i + increment))
       \<and> increment = fl (5 / 6)
       \<and> (\<forall>i < 120. percent_after i < percent_after (Suc i) \<and> percent_after (Suc i) < 100)
       \<and> progress (fires js (effect s0)) \<le> 100
       \<and> progress (run b m (effect s0)) \<le> 100"
proof -
  from run_stages [OF assms, of b n] obtain c where
    c: "run b (n * events_per_stage b) (effect s0)
          = stage_at (now s0 + 12000 * n) (nextId s0 + 2 * n) (n mod 3) 0 c" by blast
  have a: "length stages = 3 \<and> (\<forall>st \<in> set stages. duration st = 12000)"
    by (simp add: stages_def)
  have t: "j \<le> 119 \<longrightarrow>
            currentStage (run b (n * events_per_stage b + j) (effect s0)) = n mod 3
            \<and> progress (run b (n * events_per_stage b + j) (effect s0)) = percent_after j
            \<and> now (run b (n * events_per_stage b + j) (effect s0)) = now s0 + 12000 * n + 100 * j
            \<and> timers (run b (n * events_per_stage b + j) (effect s0)) \<noteq> []"
  proof
    assume "j \<le> 119"
    then have "run b (n * events_per_stage b + j) (effect s0)
                 = stage_at (now s0 + 12000 * n) (nextId s0 + 2 * n) (n mod 3) j c"
      by (simp add: run_add c run_ticks)
    then show "currentStage (run b (n * events_per_stage b + j) (effect s0)) = n mod 3
            \<and> progress (run b (n * events_per_stage b + j) (effect s0)) = percent_after j
            \<and> now (run b (n * events_per_stage b + j) (effect s0)) = now s0 + 12000 * n + 100 * j
            \<and> timers (run b (n * events_per_stage b + j) (effect s0)) \<noteq> []"
      by (simp add: stage_at_def)
  qed
  have f: "\<not> b \<longrightarrow>
            currentStage (run b (n * events_per_stage b + 120) (effect s0)) = n mod 3
            \<and> progress (run b (n * events_per_stage b + 120) (effect s0)) = percent_after 120"
  proof
    assume nb: "\<not> b"
    have "run b (n * events_per_stage b + (119 + 1)) (effect s0)
            = step b (stage_at (now s0 + 12000 * n) (nextId s0 + 2 * n) (n mod 3) 119 c)"
      by (simp only: run_add c) (simp add: run_ticks)
    then have "run b (n * events_per_stage b + 120) (effect s0)
            = stage_at (now s0 + 12000 * n) (nextId s0 + 2 * n) (n mod 3) 120 c"
      using nb by (simp add: step_tick)
    then show "currentStage (run b (n * events_per_stage b + 120) (effect s0)) = n mod 3
            \<and> progress (run b (n * events_per_stage b + 120) (effect s0)) = percent_after 120"
      by (simp add: stage_at_def)
  qed
  have d: "percent_after 0 = 0 \<and> (\<forall>i. percent_after (Suc i) = fl (percent_after i + increment))
           \<and> increment = fl (5 / 6)"
    by (simp add: increment_def fl_eval)
  have r: "\<forall>i < 120. percent_after i < percent_after (Suc i) \<and> percent_after (Suc i) < 100"
  proof (intro allI impI)
    fix i :: nat
    assume "i < 120"
    then show "percent_after i < percent_after (Suc i) \<and> percent_after (Suc i) < 100"
      using percent_rising [of i] percent_below [of "Suc i"]
      by (simp del: percent_after.simps)
  qed
  have p: "progress (fires js (effect s0)) \<le> 100"
    by (simp add: progress_fires progress_effect)
  have q: "progress (run b m (effect s0)) \<le> 100"
    by (simp add: progress_run progress_effect)
  show ?thesis using a t f d r p q by blast
qed

theorem stage_cycle_witness:
  "timers host0 = []
   \<and> currentStage (run True (4 * events_per_stage True + 3) (effect host0)) = 1
   \<and> progress (run True (4 * events_per_stage True + 3) (effect host0)) = 5 / 2
   \<and> now (run True (4 * events_per_stage True + 3) (effect host0)) = 48300
   \<and> currentStage (run False (3 * events_per_stage False + 120) (effect host0)) = 0
   \<and> progress (run False (3 * events_per_stage False + 120) (effect host0))
       = 7036874417766391 / 70368744177664
   \<and> (7036874417766391 / 70368744177664 :: rat) < 100"
proof -
  have h: "timers host0 = []" "now host0 = 0"
    by (simp_all add: host0_def)
  have three: "percent_after 3 = 5 / 2"
    by (simp add: numeral_3_eq_3 increment_value fl_eval)
  from stage_cycle [OF h(1), of 3 True 4] stage_cycle [OF h(1), of 0 False 3] h three
  show ?thesis by (simp add: percent_checkpoints)
qed

end
